theory Spec2Isabelle
  imports Main "HOL-Library.Sublist"
begin

section \<open>Strings\<close>

text \<open>
  A JavaScript string is read as a list of code units; \<^typ>\<open>string\<close> holds the code
  units below 256, which covers every character the scanner tests for.  The string
  built-ins used by the sources are modelled here with the behaviour ECMAScript gives them
  on non-negative integer arguments.
\<close>

text \<open>\<^verbatim>\<open>s.substring(a, b)\<close>: both indices are clamped to the length and swapped when
  \<open>a > b\<close>.\<close>

definition substring :: "string \<Rightarrow> nat \<Rightarrow> nat \<Rightarrow> string" where
  "substring s a b =
     (let a' = min a (length s); b' = min b (length s);
          from = min a' b'; to = max a' b'
      in take (to - from) (drop from s))"

text \<open>\<^verbatim>\<open>s.substring(a)\<close>: the rest of the string from \<open>a\<close> on.\<close>

definition substringFrom :: "string \<Rightarrow> nat \<Rightarrow> string" where
  "substringFrom s a = drop (min a (length s)) s"

text \<open>\<^verbatim>\<open>s.indexOf(t, i)\<close>: the least position \<open>k \<ge> i\<close> at which \<open>t\<close> occurs in \<open>s\<close>;
  \<open>None\<close> stands for \<open>-1\<close>.  \<open>indexFrom t k rest\<close> searches \<open>rest\<close>, the part of the
  string that starts at position \<open>k\<close>.\<close>

fun indexFrom :: "string \<Rightarrow> nat \<Rightarrow> string \<Rightarrow> nat option" where
  "indexFrom t k [] = (if t = [] then Some k else None)"
| "indexFrom t k (c # cs) =
     (if prefix t (c # cs) then Some k else indexFrom t (Suc k) cs)"

definition indexOf :: "string \<Rightarrow> string \<Rightarrow> nat \<Rightarrow> nat option" where
  "indexOf s t i = indexFrom t (min i (length s)) (drop i s)"

text \<open>\<^verbatim>\<open>s.includes(t)\<close>.\<close>

definition includesStr :: "string \<Rightarrow> string \<Rightarrow> bool" where
  "includesStr s t = (indexOf s t 0 \<noteq> None)"

text \<open>\<^verbatim>\<open>s.trim()\<close> removes white space and line terminators from both ends.  Among the
  code units below 256 these are TAB, LF, VT, FF, CR, SPACE and NO-BREAK SPACE.\<close>

definition isWhiteSpace :: "char \<Rightarrow> bool" where
  "isWhiteSpace c =
     (c = CHR 0x09 \<or> c = CHR 0x0A \<or> c = CHR 0x0B \<or> c = CHR 0x0C \<or> c = CHR 0x0D
      \<or> c = CHR 0x20 \<or> c = CHR 0xA0)"

definition trim :: "string \<Rightarrow> string" where
  "trim s = rev (dropWhile isWhiteSpace (rev (dropWhile isWhiteSpace s)))"

text \<open>\<^verbatim>\<open>entries.join(sep)\<close> on an array of strings.\<close>

fun join :: "string \<Rightarrow> string list \<Rightarrow> string" where
  "join sep [] = []"
| "join sep [x] = x"
| "join sep (x # y # ys) = x @ sep @ join sep (y # ys)"


section \<open>The injection scanner (atFileProcessor.ts, extractInjections)\<close>

text \<open>Modelled from the spec: the constant \<^verbatim>\<open>AT_FILE_INJECTION_TRIGGER\<close> is imported from
  \<^verbatim>\<open>./types.js\<close>, which is not among the sources; the specification gives it as the
  literal two-character sequence of an at sign and an opening brace.\<close>

definition AT_FILE_INJECTION_TRIGGER :: string where
  "AT_FILE_INJECTION_TRIGGER = [CHR ''@'', CHR ''{'']"

record FileInjection =
  path :: string
  startIndex :: nat
  endIndex :: nat

text \<open>
  The inner \<^verbatim>\<open>while (currentIndex < prompt.length)\<close> loop.  \<open>findClosing braceCount
  currentIndex rest\<close> runs it from \<open>currentIndex\<close>, where \<open>rest\<close> is the prompt from
  \<open>currentIndex\<close> on; it returns the value of \<open>currentIndex\<close> at the \<^verbatim>\<open>break\<close>, or \<open>None\<close>
  when the loop ends with \<open>foundEnd\<close> still false.
\<close>

fun findClosing :: "int \<Rightarrow> nat \<Rightarrow> string \<Rightarrow> nat option" where
  "findClosing braceCount currentIndex [] = None"
| "findClosing braceCount currentIndex (char # rest) =
     (if char = CHR ''{'' then findClosing (braceCount + 1) (currentIndex + 1) rest
      else if char = CHR ''}'' then
        (if braceCount - 1 = 0 then Some currentIndex
         else findClosing (braceCount - 1) (currentIndex + 1) rest)
      else findClosing braceCount (currentIndex + 1) rest)"

text \<open>The outer \<^verbatim>\<open>while (index < prompt.length)\<close> loop, with the array \<open>injections\<close> as an
  accumulator that \<^verbatim>\<open>push\<close> extends at the end.\<close>

function extractLoop :: "string \<Rightarrow> nat \<Rightarrow> FileInjection list \<Rightarrow> FileInjection list" where
  "extractLoop prompt index injections =
     (if index < length prompt then
        (case indexOf prompt AT_FILE_INJECTION_TRIGGER index of
           None \<Rightarrow> injections
         | Some start \<Rightarrow>
             (case findClosing 1 (start + length AT_FILE_INJECTION_TRIGGER)
                     (drop (start + length AT_FILE_INJECTION_TRIGGER) prompt) of
                Some currentIndex \<Rightarrow>
                  extractLoop prompt (currentIndex + 1)
                    (injections @
                      [\<lparr>path = trim (substring prompt
                                 (start + length AT_FILE_INJECTION_TRIGGER) currentIndex),
                        startIndex = start,
                        endIndex = currentIndex + 1\<rparr>])
              | None \<Rightarrow> extractLoop prompt (start + 1) injections))
      else injections)"
  by pat_completeness auto
termination
proof -
  have idx: "indexFrom t k s = Some r \<Longrightarrow> k \<le> r \<and> r + length t \<le> k + length s"
    for t k s r
  proof (induction s arbitrary: k)
    case Nil
    then show ?case by (simp split: if_splits)
  next
    case (Cons c cs)
    show ?case
    proof (cases "prefix t (c # cs)")
      case True
      then have "length t \<le> length (c # cs)" by (rule prefix_length_le)
      with True Cons.prems show ?thesis by simp
    next
      case False
      with Cons.prems have "indexFrom t (Suc k) cs = Some r" by simp
      from Cons.IH [OF this] show ?thesis by simp
    qed
  qed
  have cls: "findClosing b k s = Some r \<Longrightarrow> k \<le> r \<and> r < k + length s" for b k s r
  proof (induction s arbitrary: b k)
    case Nil
    then show ?case by simp
  next
    case (Cons c cs)
    then show ?case by (fastforce split: if_splits)
  qed
  show ?thesis
  proof (relation "measure (\<lambda>(prompt, index, injections). length prompt - index)")
    show "wf (measure (\<lambda>(prompt, index, injections). length prompt - index))"
      by simp
  next
    fix prompt :: string and index :: nat and injections :: "FileInjection list"
      and start currentIndex :: nat
    assume lt: "index < length prompt"
      and i: "indexOf prompt AT_FILE_INJECTION_TRIGGER index = Some start"
      and c: "findClosing 1 (start + length AT_FILE_INJECTION_TRIGGER)
                (drop (start + length AT_FILE_INJECTION_TRIGGER) prompt) = Some currentIndex"
    from idx [OF i [unfolded indexOf_def]] lt have "index \<le> start" by simp
    moreover from cls [OF c] have "start < currentIndex" "currentIndex < length prompt"
      by (auto simp: AT_FILE_INJECTION_TRIGGER_def)
    ultimately show "((prompt, currentIndex + 1,
          injections @
            [\<lparr>path = trim (substring prompt
                       (start + length AT_FILE_INJECTION_TRIGGER) currentIndex),
              startIndex = start, endIndex = currentIndex + 1\<rparr>]),
         (prompt, index, injections))
        \<in> measure (\<lambda>(prompt, index, injections). length prompt - index)"
      by simp
  next
    fix prompt :: string and index :: nat and injections :: "FileInjection list"
      and start :: nat
    assume lt: "index < length prompt"
      and i: "indexOf prompt AT_FILE_INJECTION_TRIGGER index = Some start"
    from idx [OF i [unfolded indexOf_def]] lt
    have "index \<le> start" "start < length prompt"
      by (auto simp: AT_FILE_INJECTION_TRIGGER_def)
    then show "((prompt, start + 1, injections), (prompt, index, injections))
        \<in> measure (\<lambda>(prompt, index, injections). length prompt - index)"
      by simp
  qed
qed

definition extractInjections :: "string \<Rightarrow> FileInjection list" where
  "extractInjections prompt = extractLoop prompt 0 []"


section \<open>The workspace path resolver (pathReader.ts)\<close>

text \<open>
  The resolver's collaborators are outside the sources and are taken as parameters.
  \<open>WorkspaceContext\<close> is the object of \<^verbatim>\<open>./workspaceContext.js\<close>, of which the resolver
  calls \<^verbatim>\<open>getDirectories()\<close> and \<^verbatim>\<open>isPathWithinWorkspace(p)\<close>.  \<open>NodeEnv\<close> holds the
  functions of Node's \<^verbatim>\<open>path\<close> and \<^verbatim>\<open>fs.promises\<close> modules that the resolver calls,
  on one snapshot of the file system: \<open>fs_access p\<close> holds when \<^verbatim>\<open>fs.access(p)\<close> resolves;
  \<open>fs_stat\<close>, \<open>fs_readdir\<close> and \<open>fs_readFile\<close> return \<open>Inl e\<close> when the promise rejects
  with the error \<open>e\<close>, and \<open>fs_stat\<close> returns the value of \<^verbatim>\<open>stats.isDirectory()\<close>
  otherwise.  An error of Node's \<^verbatim>\<open>fs\<close> module has a \<^verbatim>\<open>code\<close> (\<^verbatim>\<open>ENOENT\<close> when the
  path does not exist, \<^verbatim>\<open>EACCES\<close> when permission is denied, and so on) and a
  \<^verbatim>\<open>message\<close>.
\<close>

datatype fsError = FsError (errno: string) (errText: string)

record WorkspaceContext =
  getDirectories :: "string list"
  isPathWithinWorkspace :: "string \<Rightarrow> bool"

record NodeEnv =
  path_isAbsolute :: "string \<Rightarrow> bool"
  path_resolve :: "string \<Rightarrow> string \<Rightarrow> string"
  fs_access :: "string \<Rightarrow> bool"
  fs_stat :: "string \<Rightarrow> fsError + bool"
  fs_readdir :: "string \<Rightarrow> fsError + string list"
  fs_readFile :: "string \<Rightarrow> fsError + string"

text \<open>
  Every failure of the resolver is a JavaScript \<^verbatim>\<open>Error\<close>; the constructors name where
  it comes from.  \<open>OutOfBoundsError pathStr\<close> is the \<^verbatim>\<open>throw\<close> of lines 28-30,
  \<open>NotFoundError pathStr\<close> the \<^verbatim>\<open>throw\<close> of line 49, and \<open>FsRejection e\<close> the error \<open>e\<close>
  with which \<^verbatim>\<open>fs.stat\<close>, \<^verbatim>\<open>fs.readdir\<close> or \<^verbatim>\<open>fs.readFile\<close> rejects, which the
  resolver lets through as it is.  \<open>message\<close> is the \<^verbatim>\<open>message\<close> property of the error.
\<close>

datatype error = OutOfBoundsError string | NotFoundError string | FsRejection fsError

fun message :: "error \<Rightarrow> string" where
  "message (OutOfBoundsError pathStr) =
     ''Absolute path is outside of the allowed workspace: '' @ pathStr"
| "message (NotFoundError pathStr) = ''Path not found in workspace: '' @ pathStr"
| "message (FsRejection e) = errText e"

text \<open>The \<^verbatim>\<open>for (const dir of searchDirs)\<close> loop of lines 36-45: the value of
  \<open>absolutePath\<close> after it.\<close>

fun searchDirs :: "NodeEnv \<Rightarrow> string \<Rightarrow> string list \<Rightarrow> string option" where
  "searchDirs env pathStr [] = None"
| "searchDirs env pathStr (dir # dirs) =
     (let potentialPath = path_resolve env dir pathStr
      in if fs_access env potentialPath then Some potentialPath
         else searchDirs env pathStr dirs)"

text \<open>Lines 24-46: the value of \<open>absolutePath\<close> (\<open>None\<close> for \<^verbatim>\<open>null\<close>) before the test of
  line 48, or the error thrown on the way.\<close>

definition locate :: "NodeEnv \<Rightarrow> string \<Rightarrow> WorkspaceContext \<Rightarrow> error + string option" where
  "locate env pathStr workspace =
     (if path_isAbsolute env pathStr then
        (if \<not> isPathWithinWorkspace workspace pathStr then Inl (OutOfBoundsError pathStr)
         else Inr (Some pathStr))
      else Inr (searchDirs env pathStr (getDirectories workspace)))"

text \<open>Lines 52-58: stat the target, then list the directory or read the file.\<close>

definition readTarget :: "NodeEnv \<Rightarrow> string \<Rightarrow> string \<Rightarrow> error + string" where
  "readTarget env pathStr absolutePath =
     (case fs_stat env absolutePath of
        Inl e \<Rightarrow> Inl (FsRejection e)
      | Inr isDirectory \<Rightarrow>
          if isDirectory then
            (case fs_readdir env absolutePath of
               Inl e \<Rightarrow> Inl (FsRejection e)
             | Inr entries \<Rightarrow>
                 Inr (''Directory listing for '' @ pathStr @ '':'' @ [CHR 0x0A] @ ''- ''
                      @ join ([CHR 0x0A] @ ''- '') entries))
          else
            (case fs_readFile env absolutePath of
               Inl e \<Rightarrow> Inl (FsRejection e)
             | Inr content \<Rightarrow> Inr content))"

text \<open>The whole function.  The test \<^verbatim>\<open>!absolutePath\<close> of line 48 holds for \<^verbatim>\<open>null\<close> and
  for the empty string.\<close>

definition readPathFromWorkspace :: "NodeEnv \<Rightarrow> string \<Rightarrow> WorkspaceContext \<Rightarrow> error + string" where
  "readPathFromWorkspace env pathStr workspace =
     (case locate env pathStr workspace of
        Inl e \<Rightarrow> Inl e
      | Inr None \<Rightarrow> Inl (NotFoundError pathStr)
      | Inr (Some absolutePath) \<Rightarrow>
          if absolutePath = [] then Inl (NotFoundError pathStr)
          else readTarget env pathStr absolutePath)"


section \<open>The prompt expander (atFileProcessor.ts, process)\<close>

text \<open>
  Of the command context the expander reads \<^verbatim>\<open>context.services.config\<close>, which may be
  \<^verbatim>\<open>null\<close>, and calls \<^verbatim>\<open>config.getWorkspaceContext()\<close>.  Its effects are recorded in
  order: the items passed to \<^verbatim>\<open>context.ui.addItem\<close> (without the \<^verbatim>\<open>Date.now()\<close>
  timestamp), the lines written with \<^verbatim>\<open>console.error\<close>, and the path of every call of
  the resolver.
\<close>

datatype MessageType = ERROR

record HistoryItem =
  itemType :: MessageType
  itemText :: string

record Config =
  getWorkspaceContext :: WorkspaceContext

record CommandContext =
  services_config :: "Config option"

record Effects =
  addItemCalls :: "HistoryItem list"
  consoleErrors :: "string list"
  resolverCalls :: "string list"

definition noEffects :: Effects where
  "noEffects = \<lparr>addItemCalls = [], consoleErrors = [], resolverCalls = []\<rparr>"

record LoopState =
  processedPrompt :: string
  lastIndex :: nat
  effects :: Effects

text \<open>The body of \<^verbatim>\<open>for (const injection of injections)\<close>, lines 45-80.  \<open>resolver\<close> is
  the imported \<^verbatim>\<open>readPathFromWorkspace\<close>; what it throws is an \<^verbatim>\<open>Error\<close>, so the
  \<open>message\<close> of the \<^verbatim>\<open>catch\<close> block is its \<^verbatim>\<open>message\<close> property.\<close>

definition injectOne ::
  "(string \<Rightarrow> WorkspaceContext \<Rightarrow> error + string) \<Rightarrow> Config \<Rightarrow> string
     \<Rightarrow> LoopState \<Rightarrow> FileInjection \<Rightarrow> LoopState" where
  "injectOne resolver config prompt st injection =
     (let before = processedPrompt st @ substring prompt (lastIndex st) (startIndex injection);
          workspace = getWorkspaceContext config;
          eff = effects st;
          called = resolverCalls eff @ [path injection]
      in case resolver (path injection) workspace of
           Inr fileContent \<Rightarrow>
             \<lparr>processedPrompt = before @ fileContent,
              lastIndex = endIndex injection,
              effects = eff\<lparr>resolverCalls := called\<rparr>\<rparr>
         | Inl err \<Rightarrow>
             (let uiMessage = ''Failed to inject file content for '' @ [CHR 0x27, CHR ''@'', CHR ''{'']
                     @ path injection @ ''}'' @ [CHR 0x27] @ '': '' @ message err
              in \<lparr>processedPrompt = before
                     @ substring prompt (startIndex injection) (endIndex injection),
                   lastIndex = endIndex injection,
                   effects =
                     \<lparr>addItemCalls = addItemCalls eff
                        @ [\<lparr>itemType = ERROR, itemText = uiMessage\<rparr>],
                      consoleErrors = consoleErrors eff
                        @ [''[AtFileProcessor] '' @ uiMessage
                           @ ''. Leaving placeholder in prompt.''],
                      resolverCalls = called\<rparr>\<rparr>))"

text \<open>\<^verbatim>\<open>process\<close>, with the resolver as a parameter: the returned string and the effects
  performed.\<close>

definition processWith ::
  "(string \<Rightarrow> WorkspaceContext \<Rightarrow> error + string) \<Rightarrow> string \<Rightarrow> CommandContext
     \<Rightarrow> string \<times> Effects" where
  "processWith resolver prompt context =
     (if \<not> includesStr prompt AT_FILE_INJECTION_TRIGGER then (prompt, noEffects)
      else case services_config context of
        None \<Rightarrow> (prompt, noEffects)
      | Some config \<Rightarrow>
          (let injections = extractInjections prompt
           in if length injections = 0 then (prompt, noEffects)
              else
                (let st = foldl (injectOne resolver config prompt)
                            \<lparr>processedPrompt = [], lastIndex = 0, effects = noEffects\<rparr>
                            injections
                 in (processedPrompt st @ substringFrom prompt (lastIndex st), effects st))))"

text \<open>\<^verbatim>\<open>process\<close> as the sources wire it, on the resolver of pathReader.ts.\<close>

definition process :: "NodeEnv \<Rightarrow> string \<Rightarrow> CommandContext \<Rightarrow> string \<times> Effects" where
  "process env prompt context = processWith (readPathFromWorkspace env) prompt context"


section \<open>Notions of the specification\<close>

text \<open>The slice \<open>[a, b)\<close> of a text.\<close>

definition slice :: "string \<Rightarrow> nat \<Rightarrow> nat \<Rightarrow> string" where
  "slice s a b = take (b - a) (drop a s)"

text \<open>The brace depth of a text: opening braces minus closing braces.\<close>

definition braceDepth :: "string \<Rightarrow> int" where
  "braceDepth s = int (count_list s (CHR ''{'')) - int (count_list s (CHR ''}''))"

text \<open>Inner text with balanced braces: no prefix closes more braces than it opens, and
  the whole text closes all of them.\<close>

definition balanced :: "string \<Rightarrow> bool" where
  "balanced s = ((\<forall>n\<le>length s. 0 \<le> braceDepth (take n s)) \<and> braceDepth s = 0)"

text \<open>A trigger followed by the text \<open>rest\<close> stays open to the end of the text
  when the depth, 1 after the trigger, is positive after every prefix of \<open>rest\<close>.\<close>

definition neverCloses :: "string \<Rightarrow> bool" where
  "neverCloses rest = (\<forall>n\<le>length rest. 0 < 1 + braceDepth (take n rest))"

text \<open>The text from position \<open>pos\<close> on, with every span replaced by what \<open>f\<close> gives for
  it and the text between the spans kept.\<close>

fun expanded :: "string \<Rightarrow> (FileInjection \<Rightarrow> string) \<Rightarrow> nat \<Rightarrow> FileInjection list \<Rightarrow> string" where
  "expanded prompt f pos [] = drop pos prompt"
| "expanded prompt f pos (sp # rest) =
     slice prompt pos (startIndex sp) @ f sp @ expanded prompt f (endIndex sp) rest"

text \<open>Spans in left-to-right order from position \<open>pos\<close>, non-empty, not overlapping and
  inside the text.\<close>

fun spansFrom :: "string \<Rightarrow> nat \<Rightarrow> FileInjection list \<Rightarrow> bool" where
  "spansFrom prompt pos [] = True"
| "spansFrom prompt pos (sp # rest) =
     (pos \<le> startIndex sp \<and> startIndex sp < endIndex sp
      \<and> endIndex sp \<le> length prompt \<and> spansFrom prompt (endIndex sp) rest)"

text \<open>The text of the notification for a failed injection, as the specification words
  it.\<close>

definition failureText :: "string \<Rightarrow> string \<Rightarrow> string" where
  "failureText p m =
     ''Failed to inject file content for '' @ [CHR 0x27, CHR ''@'', CHR ''{''] @ p @ ''}'' @ [CHR 0x27]
       @ '': '' @ m"

text \<open>What stands in the output for a span: the resolved content when resolution
  succeeds, the verbatim slice of the prompt when it fails.\<close>

definition replacement ::
  "(string \<Rightarrow> WorkspaceContext \<Rightarrow> error + string) \<Rightarrow> WorkspaceContext \<Rightarrow> string
     \<Rightarrow> FileInjection \<Rightarrow> string" where
  "replacement resolver workspace prompt sp =
     (case resolver (path sp) workspace of
        Inr content \<Rightarrow> content
      | Inl e \<Rightarrow> slice prompt (startIndex sp) (endIndex sp))"

text \<open>The notifications for a span: none when resolution succeeds, one error item with
  the failure text when it fails.\<close>

definition notifications ::
  "(string \<Rightarrow> WorkspaceContext \<Rightarrow> error + string) \<Rightarrow> WorkspaceContext
     \<Rightarrow> FileInjection \<Rightarrow> HistoryItem list" where
  "notifications resolver workspace sp =
     (case resolver (path sp) workspace of
        Inr content \<Rightarrow> []
      | Inl e \<Rightarrow> [\<lparr>itemType = ERROR, itemText = failureText (path sp) (message e)\<rparr>])"





text \<open>One line \<^verbatim>\<open>- entry\<close> for each entry, each after a line break.\<close>

fun entryLines :: "string list \<Rightarrow> string" where
  "entryLines [] = []"
| "entryLines (e # es) = [CHR 0x0A] @ ''- '' @ e @ entryLines es"


section \<open>A file system and a workspace for the examples\<close>

text \<open>
  The examples follow the repository's tests, which run the resolver on an in-memory
  file system (mock-fs) under \<^verbatim>\<open>/test/cwd\<close> and \<^verbatim>\<open>/test/other\<close>.  A file system is an
  association list from absolute paths to nodes; \<open>testEnv\<close> gives the POSIX reading of
  the \<^verbatim>\<open>path\<close> functions on the paths of the examples (no \<^verbatim>\<open>.\<close> or \<^verbatim>\<open>..\<close> segments)
  and Node's error messages for the \<^verbatim>\<open>fs\<close> functions.
\<close>

datatype node = File string | Directory "string list"

definition testEnv :: "(string \<times> node) list \<Rightarrow> NodeEnv" where
  "testEnv files =
     \<lparr>path_isAbsolute = (\<lambda>p. case p of [] \<Rightarrow> False | c # _ \<Rightarrow> c = CHR ''/''),
      path_resolve = (\<lambda>dir p. if p = [] then dir else dir @ ''/'' @ p),
      fs_access = (\<lambda>p. map_of files p \<noteq> None),
      fs_stat = (\<lambda>p. case map_of files p of
          None \<Rightarrow> Inl (FsError ''ENOENT''
                   (''ENOENT: no such file or directory, stat '' @ [CHR 0x27] @ p @ [CHR 0x27]))
        | Some (File _) \<Rightarrow> Inr False
        | Some (Directory _) \<Rightarrow> Inr True),
      fs_readdir = (\<lambda>p. case map_of files p of
          None \<Rightarrow> Inl (FsError ''ENOENT''
                   (''ENOENT: no such file or directory, scandir '' @ [CHR 0x27] @ p @ [CHR 0x27]))
        | Some (File _) \<Rightarrow> Inl (FsError ''ENOTDIR''
                   (''ENOTDIR: not a directory, scandir '' @ [CHR 0x27] @ p @ [CHR 0x27]))
        | Some (Directory entries) \<Rightarrow> Inr entries),
      fs_readFile = (\<lambda>p. case map_of files p of
          None \<Rightarrow> Inl (FsError ''ENOENT''
                   (''ENOENT: no such file or directory, open '' @ [CHR 0x27] @ p @ [CHR 0x27]))
        | Some (File content) \<Rightarrow> Inr content
        | Some (Directory _) \<Rightarrow> Inl (FsError ''EISDIR''
                   ''EISDIR: illegal operation on a directory, read''))\<rparr>"

text \<open>Modelled from the spec: \<^verbatim>\<open>WorkspaceContext\<close> (\<^verbatim>\<open>./workspaceContext.js\<close>) is not among
  the sources.  By the specification \<^verbatim>\<open>getDirectories()\<close> gives the roots with the
  primary root first, and \<^verbatim>\<open>isPathWithinWorkspace\<close> holds for a path that is a root or
  lies below one, on path-segment boundaries.\<close>

definition testWorkspace :: "string \<Rightarrow> string list \<Rightarrow> WorkspaceContext" where
  "testWorkspace cwd others =
     \<lparr>getDirectories = cwd # others,
      isPathWithinWorkspace =
        (\<lambda>p. list_ex (\<lambda>root. p = root \<or> prefix (root @ ''/'') p) (cwd # others))\<rparr>"

definition testContext :: "string \<Rightarrow> string list \<Rightarrow> CommandContext" where
  "testContext cwd others =
     \<lparr>services_config = Some \<lparr>getWorkspaceContext = testWorkspace cwd others\<rparr>\<rparr>"


section \<open>Properties of the string functions and of the scanner\<close>

lemma substring_slice: "a \<le> b \<Longrightarrow> substring s a b = slice s a b"
  by (auto simp: substring_def slice_def Let_def min_def max_def)

lemma indexFrom_bounds:
  "indexFrom t k s = Some r \<Longrightarrow> k \<le> r \<and> r + length t \<le> k + length s"
proof (induction s arbitrary: k)
  case Nil
  then show ?case by (simp split: if_splits)
next
  case (Cons c cs)
  show ?case
  proof (cases "prefix t (c # cs)")
    case True
    then have "length t \<le> length (c # cs)" by (rule prefix_length_le)
    with True Cons.prems show ?thesis by simp
  next
    case False
    with Cons.prems have "indexFrom t (Suc k) cs = Some r" by simp
    from Cons.IH [OF this] show ?thesis by simp
  qed
qed

lemma indexFrom_None_iff: "(indexFrom t k s = None) = (\<not> sublist t s)"
  by (induction s arbitrary: k) (auto simp: sublist_Cons_right)

lemma includesStr_iff: "includesStr s t = sublist t s"
  by (simp add: includesStr_def indexOf_def indexFrom_None_iff)

lemma indexFrom_found:
  "indexFrom t k s = Some r \<Longrightarrow> prefix t (drop (r - k) s)"
proof (induction s arbitrary: k)
  case Nil
  then show ?case by (simp split: if_splits)
next
  case (Cons c cs)
  show ?case
  proof (cases "prefix t (c # cs)")
    case True
    with Cons.prems show ?thesis by simp
  next
    case False
    with Cons.prems have *: "indexFrom t (Suc k) cs = Some r" by simp
    from indexFrom_bounds [OF *] have "r - k = Suc (r - Suc k)" by linarith
    with Cons.IH [OF *] show ?thesis by simp
  qed
qed

lemma findClosing_bounds:
  "findClosing b k s = Some r \<Longrightarrow> k \<le> r \<and> r < k + length s"
proof (induction s arbitrary: b k)
  case Nil
  then show ?case by simp
next
  case (Cons c cs)
  then show ?case by (fastforce split: if_splits)
qed

declare extractLoop.simps [simp del]

lemma extractLoop_done: "\<not> index < length p \<Longrightarrow> extractLoop p index acc = acc"
  by (subst extractLoop.simps) simp

lemma extractLoop_none:
  "indexOf p AT_FILE_INJECTION_TRIGGER index = None \<Longrightarrow> extractLoop p index acc = acc"
  by (subst extractLoop.simps) simp

lemma extractLoop_unclosed:
  assumes "index < length p"
    and "indexOf p AT_FILE_INJECTION_TRIGGER index = Some start"
    and "findClosing 1 (start + length AT_FILE_INJECTION_TRIGGER)
           (drop (start + length AT_FILE_INJECTION_TRIGGER) p) = None"
  shows "extractLoop p index acc = extractLoop p (start + 1) acc"
  using assms by (subst extractLoop.simps) simp

lemma extractLoop_closed:
  assumes "index < length p"
    and "indexOf p AT_FILE_INJECTION_TRIGGER index = Some start"
    and "findClosing 1 (start + length AT_FILE_INJECTION_TRIGGER)
           (drop (start + length AT_FILE_INJECTION_TRIGGER) p) = Some c"
  shows "extractLoop p index acc =
         extractLoop p (c + 1)
           (acc @ [\<lparr>path = trim (substring p (start + length AT_FILE_INJECTION_TRIGGER) c),
                    startIndex = start, endIndex = c + 1\<rparr>])"
  using assms by (subst extractLoop.simps) simp

lemma extractLoop_append: "extractLoop p i (xs @ acc) = xs @ extractLoop p i acc"
proof (induction p i acc arbitrary: xs rule: extractLoop.induct)
  case (1 prompt index injections)
  show ?case
  proof (cases "index < length prompt")
    case False
    then show ?thesis by (simp add: extractLoop_done)
  next
    case lt: True
    show ?thesis
    proof (cases "indexOf prompt AT_FILE_INJECTION_TRIGGER index")
      case None
      then show ?thesis by (simp add: extractLoop_none)
    next
      case st: (Some start)
      show ?thesis
      proof (cases "findClosing 1 (start + length AT_FILE_INJECTION_TRIGGER)
                     (drop (start + length AT_FILE_INJECTION_TRIGGER) prompt)")
        case None
        from "1.IH"(1) [OF lt st None] show ?thesis
          by (simp add: extractLoop_unclosed [OF lt st None])
      next
        case cl: (Some c)
        from "1.IH"(2) [OF lt st cl] show ?thesis
          by (simp add: extractLoop_closed [OF lt st cl])
      qed
    qed
  qed
qed

lemma extractLoop_acc: "extractLoop p i acc = acc @ extractLoop p i []"
  using extractLoop_append [of p i acc "[]"] by simp

lemma spansFrom_mono: "spansFrom p j xs \<Longrightarrow> i \<le> j \<Longrightarrow> spansFrom p i xs"
  by (cases xs) auto

lemma extractLoop_spans_acc: "spansFrom p i (drop (length acc) (extractLoop p i acc))"
proof (induction p i acc rule: extractLoop.induct)
  case (1 prompt index injections)
  have dr: "drop (length a) (extractLoop prompt j a) = extractLoop prompt j []" for a j
    by (subst extractLoop_acc) simp
  show ?case
  proof (cases "index < length prompt")
    case False
    then show ?thesis by (simp add: extractLoop_done)
  next
    case lt: True
    show ?thesis
    proof (cases "indexOf prompt AT_FILE_INJECTION_TRIGGER index")
      case None
      then show ?thesis by (simp add: extractLoop_none)
    next
      case st: (Some start)
      from indexFrom_bounds [OF st [unfolded indexOf_def]] lt
      have le: "index \<le> start" by simp
      show ?thesis
      proof (cases "findClosing 1 (start + length AT_FILE_INJECTION_TRIGGER)
                     (drop (start + length AT_FILE_INJECTION_TRIGGER) prompt)")
        case None
        from "1.IH"(1) [OF lt st None]
        have "spansFrom prompt (start + 1) (extractLoop prompt (start + 1) [])"
          by (simp only: dr)
        then have "spansFrom prompt index (extractLoop prompt (start + 1) [])"
          using le by (auto elim: spansFrom_mono)
        then show ?thesis
          by (simp only: dr extractLoop_unclosed [OF lt st None, of "[]"])
      next
        case cl: (Some c)
        let ?sp = "\<lparr>path = trim (substring prompt (start + length AT_FILE_INJECTION_TRIGGER) c),
                    startIndex = start, endIndex = c + 1\<rparr>"
        from findClosing_bounds [OF cl]
        have b: "start < c + 1" "c + 1 \<le> length prompt"
          by (auto simp: AT_FILE_INJECTION_TRIGGER_def)
        from "1.IH"(2) [OF lt st cl]
        have "spansFrom prompt (c + 1) (extractLoop prompt (c + 1) [])"
          by (simp only: dr)
        with le b have "spansFrom prompt index (?sp # extractLoop prompt (c + 1) [])"
          by simp
        moreover have "extractLoop prompt index [] = ?sp # extractLoop prompt (c + 1) []"
          using extractLoop_closed [OF lt st cl, of "[]"] extractLoop_acc [of prompt "c + 1" "[?sp]"]
          by simp
        ultimately show ?thesis by (simp only: dr)
      qed
    qed
  qed
qed

lemma extractInjections_spans: "spansFrom p 0 (extractInjections p)"
  using extractLoop_spans_acc [of p 0 "[]"] by (simp add: extractInjections_def)

lemma no_trigger_no_injections:
  "\<not> includesStr p AT_FILE_INJECTION_TRIGGER \<Longrightarrow> extractInjections p = []"
  by (simp add: includesStr_def extractInjections_def extractLoop_none)

lemma braceDepth_Nil: "braceDepth [] = 0"
  by (simp add: braceDepth_def)

lemma braceDepth_Cons:
  "braceDepth (c # s) =
     (if c = CHR ''{'' then 1 else if c = CHR ''}'' then - 1 else 0) + braceDepth s"
  by (simp add: braceDepth_def)

lemma all_le_Suc: "(\<forall>n\<le>Suc m. P n) = (P 0 \<and> (\<forall>n\<le>m. P (Suc n)))"
proof
  assume "\<forall>n\<le>Suc m. P n"
  then show "P 0 \<and> (\<forall>n\<le>m. P (Suc n))" by simp
next
  assume r: "P 0 \<and> (\<forall>n\<le>m. P (Suc n))"
  show "\<forall>n\<le>Suc m. P n"
  proof (intro allI impI)
    fix n assume "n \<le> Suc m"
    with r show "P n" by (cases n) simp_all
  qed
qed

lemma findClosing_None_iff:
  "1 \<le> d \<Longrightarrow>
   (findClosing d k s = None) = (\<forall>n\<le>length s. 0 < d + braceDepth (take n s))"
proof (induction s arbitrary: d k)
  case Nil
  then show ?case by (simp add: braceDepth_Nil)
next
  case (Cons c cs)
  consider (op) "c = CHR ''{''" | (cl) "c = CHR ''}''" | (other) "c \<noteq> CHR ''{''" "c \<noteq> CHR ''}''"
    by blast
  then show ?case
  proof cases
    case op
    from Cons.prems have "1 \<le> d + 1" by simp
    from Cons.IH [OF this, of "k + 1"] op Cons.prems show ?thesis
      by (simp add: all_le_Suc braceDepth_Cons braceDepth_Nil add.assoc)
  next
    case cl
    show ?thesis
    proof (cases "d = 1")
      case True
      with cl show ?thesis
        by (auto simp: all_le_Suc braceDepth_Cons braceDepth_Nil intro: exI [of _ 0])
    next
      case False
      with Cons.prems have "1 \<le> d - 1" by simp
      from Cons.IH [OF this, of "k + 1"] cl False Cons.prems show ?thesis
        by (simp add: all_le_Suc braceDepth_Cons braceDepth_Nil algebra_simps)
    qed
  next
    case other
    from Cons.IH [OF Cons.prems, of "k + 1"] other Cons.prems show ?thesis
      by (simp add: all_le_Suc braceDepth_Cons braceDepth_Nil)
  qed
qed

lemma findClosing_balanced:
  "0 \<le> e \<Longrightarrow> \<forall>n\<le>length inner. 0 \<le> e + braceDepth (take n inner) \<Longrightarrow>
   e + braceDepth inner = 0 \<Longrightarrow>
   findClosing (e + 1) k (inner @ CHR ''}'' # post) = Some (k + length inner)"
proof (induction inner arbitrary: e k)
  case Nil
  then show ?case by (simp add: braceDepth_Nil)
next
  case (Cons c cs)
  from Cons.prems(2) have all: "\<forall>n\<le>length cs. 0 \<le> e + braceDepth (take (Suc n) (c # cs))"
    by (simp add: all_le_Suc)
  consider (op) "c = CHR ''{''" | (cl) "c = CHR ''}''" | (other) "c \<noteq> CHR ''{''" "c \<noteq> CHR ''}''"
    by blast
  then show ?case
  proof cases
    case op
    have "findClosing (e + 1 + 1) (k + 1) (cs @ CHR ''}'' # post) = Some (k + 1 + length cs)"
      using Cons.prems all op by (intro Cons.IH) (simp_all add: braceDepth_Cons add.assoc)
    with op show ?thesis by simp
  next
    case cl
    from all cl have "0 \<le> e + braceDepth (take (Suc 0) (c # cs))" by blast
    with cl have e1: "1 \<le> e" by (simp add: braceDepth_Cons braceDepth_Nil)
    have "findClosing (e - 1 + 1) (k + 1) (cs @ CHR ''}'' # post) = Some (k + 1 + length cs)"
      using Cons.prems all cl e1 by (intro Cons.IH) (simp_all add: braceDepth_Cons algebra_simps)
    with cl e1 show ?thesis by simp
  next
    case other
    have "findClosing (e + 1) (k + 1) (cs @ CHR ''}'' # post) = Some (k + 1 + length cs)"
      using Cons.prems all other by (intro Cons.IH) (simp_all add: braceDepth_Cons)
    with other show ?thesis by simp
  qed
qed

lemma trigger_length: "length AT_FILE_INJECTION_TRIGGER = 2"
  by (simp add: AT_FILE_INJECTION_TRIGGER_def)

lemma indexOf_bounds:
  assumes "indexOf p AT_FILE_INJECTION_TRIGGER i = Some r"
  shows "i \<le> r \<and> r + 2 \<le> length p"
proof -
  from indexFrom_bounds [OF assms [unfolded indexOf_def]]
  have b: "min i (length p) \<le> r" "r + 2 \<le> min i (length p) + length (drop i p)"
    by (simp_all add: trigger_length)
  then show ?thesis by (cases "i \<le> length p") (simp_all add: min_def)
qed

lemma findClosing_neverCloses:
  "(findClosing 1 k rest = None) = neverCloses rest"
  by (simp add: findClosing_None_iff neverCloses_def)

lemma trim_decomp:
  "\<exists>l r. s = l @ trim s @ r \<and> list_all isWhiteSpace l \<and> list_all isWhiteSpace r"
proof -
  let ?l = "takeWhile isWhiteSpace s"
  let ?m = "dropWhile isWhiteSpace s"
  let ?r = "rev (takeWhile isWhiteSpace (rev ?m))"
  have "?m = trim s @ ?r"
    unfolding trim_def
    by (metis rev_append rev_rev_ident takeWhile_dropWhile_id)
  then have "s = ?l @ trim s @ ?r" by (metis takeWhile_dropWhile_id)
  moreover have "list_all isWhiteSpace ?l"
    by (simp add: list_all_iff) (metis set_takeWhileD)
  moreover have "list_all isWhiteSpace ?r"
    by (simp add: list_all_iff) (metis set_takeWhileD)
  ultimately show ?thesis by blast
qed

lemma trim_ends:
  assumes "trim s \<noteq> []"
  shows "\<not> isWhiteSpace (hd (trim s)) \<and> \<not> isWhiteSpace (last (trim s))"
proof -
  let ?m = "dropWhile isWhiteSpace s"
  let ?d = "dropWhile isWhiteSpace (rev ?m)"
  from assms have d: "?d \<noteq> []" by (simp add: trim_def)
  then have hd_d: "\<not> isWhiteSpace (hd ?d)" by (rule hd_dropWhile)
  have "last (trim s) = hd ?d" using d by (simp add: trim_def last_rev)
  with hd_d have l: "\<not> isWhiteSpace (last (trim s))" by simp
  have m: "?m \<noteq> []"
  proof
    assume "?m = []"
    then have "?d = dropWhile isWhiteSpace (rev [])" by (rule arg_cong)
    with d show False by simp
  qed
  then have hm: "\<not> isWhiteSpace (hd ?m)" by (rule hd_dropWhile)
  obtain ws where "?m = trim s @ ws"
    unfolding trim_def by (metis rev_append rev_rev_ident takeWhile_dropWhile_id)
  with assms have "hd ?m = hd (trim s)" by simp
  with hm l show ?thesis by simp
qed


section \<open>The scanner: unclosed triggers and balanced injections\<close>

lemma processWith_no_injections:
  "extractInjections prompt = [] \<Longrightarrow> processWith resolver prompt context = (prompt, noEffects)"
  by (simp add: processWith_def split: option.splits)

text \<open>
  C2: when a trigger is opened and the brace depth never returns to 0 before the end of
  the text, the scanner drops the candidate and resumes one character past the
  trigger's start; the next trigger in the abandoned region, when it is closed by
  balanced braces, is still found.  The input \<open>Hello \<close> followed by an unclosed trigger and \<open>world\<close> has no span, and \<open>process\<close>
  returns it unchanged without any effect.
\<close>

theorem unclosed_trigger_resumes_one_past_start:
  assumes "indexOf prompt AT_FILE_INJECTION_TRIGGER index = Some start"
    and "neverCloses (drop (start + 2) prompt)"
  shows "extractLoop prompt index acc = extractLoop prompt (start + 1) acc
    \<and> (\<forall>start' inner post.
          indexOf prompt AT_FILE_INJECTION_TRIGGER (start + 1) = Some start'
          \<and> drop (start' + 2) prompt = inner @ ''}'' @ post \<and> balanced inner
          \<longrightarrow> start < start'
            \<and> \<lparr>path = trim inner, startIndex = start',
                 endIndex = start' + 2 + length inner + 1\<rparr>
               \<in> set (extractLoop prompt index acc))
    \<and> extractInjections (''Hello @'' @ ''{world'') = []
    \<and> (\<forall>resolver context.
          processWith resolver (''Hello @'' @ ''{world'') context = ((''Hello @'' @ ''{world''), noEffects))"
proof (intro conjI allI impI)
  from indexOf_bounds [OF assms(1)] have lt: "index < length prompt" by simp
  from assms(2) have none: "findClosing 1 (start + length AT_FILE_INJECTION_TRIGGER)
      (drop (start + length AT_FILE_INJECTION_TRIGGER) prompt) = None"
    by (simp add: trigger_length findClosing_neverCloses)
  show step: "extractLoop prompt index acc = extractLoop prompt (start + 1) acc"
    by (rule extractLoop_unclosed [OF lt assms(1) none])
  show hello: "extractInjections (''Hello @'' @ ''{world'') = []"
    by code_simp
  show "processWith resolver (''Hello @'' @ ''{world'') ctx = ((''Hello @'' @ ''{world''), noEffects)"
    for resolver ctx
    by (rule processWith_no_injections [OF hello])
  fix start' inner post
  assume a: "indexOf prompt AT_FILE_INJECTION_TRIGGER (start + 1) = Some start'
    \<and> drop (start' + 2) prompt = inner @ ''}'' @ post \<and> balanced inner"
  then have nxt: "indexOf prompt AT_FILE_INJECTION_TRIGGER (start + 1) = Some start'"
    and dr: "drop (start' + 2) prompt = inner @ ''}'' @ post"
    and bal: "balanced inner"
    by simp_all
  from indexOf_bounds [OF nxt] show "start < start'" by simp
  from indexOf_bounds [OF nxt] have lt': "start + 1 < length prompt" by simp
  have cl: "findClosing 1 (start' + length AT_FILE_INJECTION_TRIGGER)
      (drop (start' + length AT_FILE_INJECTION_TRIGGER) prompt) = Some (start' + 2 + length inner)"
  proof -
    have "findClosing (0 + 1) (start' + 2) (inner @ CHR ''}'' # post)
            = Some (start' + 2 + length inner)"
      using bal by (intro findClosing_balanced) (simp_all add: balanced_def)
    then show ?thesis by (simp only: trigger_length dr) simp
  qed
  have inner: "substring prompt (start' + 2) (start' + 2 + length inner) = inner"
    by (simp only: substring_slice slice_def dr le_add1) simp
  let ?sp = "\<lparr>path = trim inner, startIndex = start',
              endIndex = start' + 2 + length inner + 1\<rparr>"
  have "extractLoop prompt (start + 1) acc =
        extractLoop prompt (start' + 2 + length inner + 1) (acc @ [?sp])"
    using extractLoop_closed [OF lt' nxt cl, of acc] by (simp only: trigger_length inner)
  also have "\<dots> = (acc @ [?sp]) @ extractLoop prompt (start' + 2 + length inner + 1) []"
    by (rule extractLoop_acc)
  finally show "?sp \<in> set (extractLoop prompt index acc)"
    by (simp add: step)
qed


theorem unclosed_trigger_resumes_one_past_start_witness:
  "indexOf (''@'' @ ''{a @'' @ ''{b}'') AT_FILE_INJECTION_TRIGGER 0 = Some 0
   \<and> neverCloses (drop (0 + 2) (''@'' @ ''{a @'' @ ''{b}''))
   \<and> extractLoop (''@'' @ ''{a @'' @ ''{b}'') 0 [] = extractLoop (''@'' @ ''{a @'' @ ''{b}'') (0 + 1) []
   \<and> indexOf (''@'' @ ''{a @'' @ ''{b}'') AT_FILE_INJECTION_TRIGGER (0 + 1) = Some 4
   \<and> \<lparr>path = trim ''b'', startIndex = 4, endIndex = 4 + 2 + length ''b'' + 1\<rparr>
       \<in> set (extractLoop (''@'' @ ''{a @'' @ ''{b}'') 0 [])
   \<and> extractInjections (''@'' @ ''{a @'' @ ''{b}'') = [\<lparr>path = ''b'', startIndex = 4, endIndex = 8\<rparr>]"
proof -
  have h1: "indexOf (''@'' @ ''{a @'' @ ''{b}'') AT_FILE_INJECTION_TRIGGER 0 = Some 0"
    by code_simp
  have "findClosing 1 0 (drop (0 + 2) (''@'' @ ''{a @'' @ ''{b}'')) = None"
    by code_simp
  then have h2: "neverCloses (drop (0 + 2) (''@'' @ ''{a @'' @ ''{b}''))"
    by (simp only: findClosing_neverCloses)
  have nxt: "indexOf (''@'' @ ''{a @'' @ ''{b}'') AT_FILE_INJECTION_TRIGGER (0 + 1) = Some 4"
    by code_simp
  have dr: "drop (4 + 2) (''@'' @ ''{a @'' @ ''{b}'') = ''b'' @ ''}'' @ []"
    by simp
  have bal: "balanced ''b''"
    by (simp add: balanced_def all_le_Suc braceDepth_Cons braceDepth_Nil)
  note t = unclosed_trigger_resumes_one_past_start [OF h1 h2, of "[]"]
  from t have c1: "extractLoop (''@'' @ ''{a @'' @ ''{b}'') 0 [] = extractLoop (''@'' @ ''{a @'' @ ''{b}'') (0 + 1) []"
    by (rule conjunct1)
  from t nxt dr bal
  have c2: "\<lparr>path = trim ''b'', startIndex = 4, endIndex = 4 + 2 + length ''b'' + 1\<rparr>
       \<in> set (extractLoop (''@'' @ ''{a @'' @ ''{b}'') 0 [])"
    by blast
  have c3: "extractInjections (''@'' @ ''{a @'' @ ''{b}'') = [\<lparr>path = ''b'', startIndex = 4, endIndex = 8\<rparr>]"
    by code_simp
  from h1 h2 c1 nxt c2 c3 show ?thesis by (intro conjI)
qed

text \<open>
  C3: for a well-formed injection whose inner braces are balanced, the span found by the
  scanner has as its path the exact inner text, without the trigger and the matching
  closing brace, trimmed of white space at both ends; nested braces are matched by
  depth, so the injection of \<open>a/{b}/c\<close> has the path \<open>a/{b}/c\<close>, and the injection of
  the empty text is a span with the empty path.
\<close>

theorem balanced_injection_path:
  assumes "prompt = pre @ AT_FILE_INJECTION_TRIGGER @ inner @ ''}'' @ post"
    and "balanced inner"
    and "indexOf prompt AT_FILE_INJECTION_TRIGGER index = Some (length pre)"
  shows "extractLoop prompt index acc =
           extractLoop prompt (length pre + length inner + 3)
             (acc @ [\<lparr>path = trim inner, startIndex = length pre,
                      endIndex = length pre + length inner + 3\<rparr>])
    \<and> \<lparr>path = trim inner, startIndex = length pre,
         endIndex = length pre + length inner + 3\<rparr> \<in> set (extractLoop prompt index acc)
    \<and> extractInjections (''@'' @ ''{a/{b}/c}'')
        = [\<lparr>path = ''a/{b}/c'', startIndex = 0, endIndex = 10\<rparr>]
    \<and> extractInjections (''@'' @ ''{}'') = [\<lparr>path = [], startIndex = 0, endIndex = 3\<rparr>]"
proof (intro conjI)
  let ?start = "length pre"
  let ?sp = "\<lparr>path = trim inner, startIndex = ?start,
              endIndex = ?start + length inner + 3\<rparr>"
  from indexOf_bounds [OF assms(3)] have lt: "index < length prompt" by simp
  have dr: "drop (?start + 2) prompt = inner @ CHR ''}'' # post"
    by (simp add: assms(1) AT_FILE_INJECTION_TRIGGER_def)
  have cl: "findClosing 1 (?start + length AT_FILE_INJECTION_TRIGGER)
      (drop (?start + length AT_FILE_INJECTION_TRIGGER) prompt) = Some (?start + 2 + length inner)"
  proof -
    have "findClosing (0 + 1) (?start + 2) (inner @ CHR ''}'' # post)
            = Some (?start + 2 + length inner)"
      using assms(2) by (intro findClosing_balanced) (simp_all add: balanced_def)
    then show ?thesis by (simp only: trigger_length dr) simp
  qed
  have inner: "substring prompt (?start + 2) (?start + 2 + length inner) = inner"
    by (simp only: substring_slice slice_def dr le_add1) simp
  have e: "?start + 2 + length inner + 1 = ?start + length inner + 3" by simp
  show step: "extractLoop prompt index acc = extractLoop prompt (?start + length inner + 3) (acc @ [?sp])"
    using extractLoop_closed [OF lt assms(3) cl, of acc] by (simp only: trigger_length inner e)
  have "extractLoop prompt (?start + length inner + 3) (acc @ [?sp])
        = (acc @ [?sp]) @ extractLoop prompt (?start + length inner + 3) []"
    by (rule extractLoop_acc)
  then show "?sp \<in> set (extractLoop prompt index acc)"
    by (simp add: step)
  show "extractInjections (''@'' @ ''{a/{b}/c}'') = [\<lparr>path = ''a/{b}/c'', startIndex = 0, endIndex = 10\<rparr>]"
    by code_simp
  show "extractInjections (''@'' @ ''{}'') = [\<lparr>path = [], startIndex = 0, endIndex = 3\<rparr>]"
    by code_simp
qed

theorem balanced_injection_path_witness:
  "balanced ''path/with/{braces}/file.txt ''
   \<and> indexOf (''Analyze '' @ AT_FILE_INJECTION_TRIGGER @ ''path/with/{braces}/file.txt '' @ ''}'' @ ''!'')
        AT_FILE_INJECTION_TRIGGER 0 = Some (length ''Analyze '')
   \<and> \<lparr>path = trim ''path/with/{braces}/file.txt '', startIndex = length ''Analyze '',
        endIndex = length ''Analyze '' + length ''path/with/{braces}/file.txt '' + 3\<rparr>
       \<in> set (extractLoop
                (''Analyze '' @ AT_FILE_INJECTION_TRIGGER @ ''path/with/{braces}/file.txt '' @ ''}'' @ ''!'') 0 [])
   \<and> extractInjections (''Analyze @'' @ ''{path/with/{braces}/file.txt }!'')
       = [\<lparr>path = ''path/with/{braces}/file.txt'', startIndex = 8, endIndex = 39\<rparr>]"
proof -
  let ?inner = "''path/with/{braces}/file.txt ''"
  let ?prompt = "''Analyze '' @ AT_FILE_INJECTION_TRIGGER @ ?inner @ ''}'' @ ''!''"
  have bal: "balanced ?inner"
    by (simp add: balanced_def all_le_Suc braceDepth_Cons braceDepth_Nil)
  have idx: "indexOf ?prompt AT_FILE_INJECTION_TRIGGER 0 = Some (length ''Analyze '')"
    by code_simp
  note t = balanced_injection_path [OF refl bal idx, of "[]"]
  from t have c: "\<lparr>path = trim ?inner, startIndex = length ''Analyze '',
        endIndex = length ''Analyze '' + length ?inner + 3\<rparr> \<in> set (extractLoop ?prompt 0 [])"
    by blast
  have ev: "extractInjections (''Analyze @'' @ ''{path/with/{braces}/file.txt }!'')
       = [\<lparr>path = ''path/with/{braces}/file.txt'', startIndex = 8, endIndex = 39\<rparr>]"
    by code_simp
  from bal idx c ev show ?thesis by (intro conjI)
qed


section \<open>Properties of the expander\<close>

lemma substringFrom_drop: "substringFrom s a = drop a s"
  by (simp add: substringFrom_def min_def)

lemma slice_append:
  "a \<le> b \<Longrightarrow> b \<le> c \<Longrightarrow> slice s a b @ slice s b c = slice s a c"
proof -
  assume ab: "a \<le> b" and bc: "b \<le> c"
  have "take (b - a) (drop a s) @ take (c - b) (drop (b - a) (drop a s))
        = take ((b - a) + (c - b)) (drop a s)"
    by (simp add: take_add)
  with ab bc show ?thesis by (simp add: slice_def)
qed

lemma slice_drop: "a \<le> b \<Longrightarrow> slice s a b @ drop b s = drop a s"
proof -
  assume ab: "a \<le> b"
  have "take (b - a) (drop a s) @ drop (b - a) (drop a s) = drop a s"
    by (rule append_take_drop_id)
  with ab show ?thesis by (simp add: slice_def)
qed

lemma injectOne_fields:
  assumes "lastIndex st \<le> startIndex sp" and "startIndex sp \<le> endIndex sp"
  shows "processedPrompt (injectOne resolver config prompt st sp) =
           processedPrompt st @ slice prompt (lastIndex st) (startIndex sp)
             @ replacement resolver (getWorkspaceContext config) prompt sp"
    and "lastIndex (injectOne resolver config prompt st sp) = endIndex sp"
  using assms
  by (auto simp: injectOne_def replacement_def Let_def substring_slice split: sum.splits)

lemma injectOne_effects:
  "addItemCalls (effects (injectOne resolver config prompt st sp)) =
     addItemCalls (effects st) @ notifications resolver (getWorkspaceContext config) sp"
  "resolverCalls (effects (injectOne resolver config prompt st sp)) =
     resolverCalls (effects st) @ [path sp]"
  "consoleErrors (effects (injectOne resolver config prompt st sp)) =
     consoleErrors (effects st)
       @ map (\<lambda>item. ''[AtFileProcessor] '' @ itemText item @ ''. Leaving placeholder in prompt.'')
           (notifications resolver (getWorkspaceContext config) sp)"
  by (auto simp: injectOne_def notifications_def failureText_def Let_def split: sum.splits)

lemma foldl_injectOne_text:
  "spansFrom prompt (lastIndex st) sps \<Longrightarrow>
   processedPrompt (foldl (injectOne resolver config prompt) st sps)
     @ drop (lastIndex (foldl (injectOne resolver config prompt) st sps)) prompt
   = processedPrompt st
     @ expanded prompt (replacement resolver (getWorkspaceContext config) prompt)
         (lastIndex st) sps"
proof (induction sps arbitrary: st)
  case Nil
  show ?case by simp
next
  case (Cons sp sps)
  from Cons.prems have b: "lastIndex st \<le> startIndex sp" "startIndex sp \<le> endIndex sp"
    and rest: "spansFrom prompt (endIndex sp) sps"
    by simp_all
  let ?st = "injectOne resolver config prompt st sp"
  from rest have "spansFrom prompt (lastIndex ?st) sps"
    by (simp add: injectOne_fields(2) [OF b])
  from Cons.IH [OF this] show ?case
    by (simp add: injectOne_fields [OF b])
qed

lemma foldl_injectOne_effects:
  "addItemCalls (effects (foldl (injectOne resolver config prompt) st sps)) =
     addItemCalls (effects st)
       @ concat (map (notifications resolver (getWorkspaceContext config)) sps)"
  "resolverCalls (effects (foldl (injectOne resolver config prompt) st sps)) =
     resolverCalls (effects st) @ map path sps"
  by (induction sps arbitrary: st) (simp_all add: injectOne_effects)

lemma expanded_slices:
  "spansFrom prompt pos sps \<Longrightarrow>
   expanded prompt (\<lambda>sp. slice prompt (startIndex sp) (endIndex sp)) pos sps = drop pos prompt"
proof (induction sps arbitrary: pos)
  case Nil
  show ?case by simp
next
  case (Cons sp sps)
  from Cons.prems have b: "pos \<le> startIndex sp" "startIndex sp \<le> endIndex sp"
    and rest: "spansFrom prompt (endIndex sp) sps"
    by simp_all
  from Cons.IH [OF rest] b show ?case
    by (simp add: slice_drop)
qed

lemma processWith_text:
  "fst (processWith resolver prompt \<lparr>services_config = Some config\<rparr>) =
     expanded prompt (replacement resolver (getWorkspaceContext config) prompt) 0
       (extractInjections prompt)"
proof (cases "extractInjections prompt = []")
  case True
  then show ?thesis by (simp add: processWith_no_injections)
next
  case False
  then have inc: "includesStr prompt AT_FILE_INJECTION_TRIGGER"
    using no_trigger_no_injections by blast
  let ?st0 = "\<lparr>processedPrompt = [], lastIndex = 0, effects = noEffects\<rparr>"
  have "spansFrom prompt (lastIndex ?st0) (extractInjections prompt)"
    by (simp add: extractInjections_spans)
  from foldl_injectOne_text [OF this, of resolver config] False inc show ?thesis
    by (simp add: processWith_def Let_def substringFrom_drop)
qed

lemma processWith_effects:
  "addItemCalls (snd (processWith resolver prompt \<lparr>services_config = Some config\<rparr>)) =
     concat (map (notifications resolver (getWorkspaceContext config)) (extractInjections prompt))"
  "resolverCalls (snd (processWith resolver prompt \<lparr>services_config = Some config\<rparr>)) =
     map path (extractInjections prompt)"
proof -
  let ?st0 = "\<lparr>processedPrompt = [], lastIndex = 0, effects = noEffects\<rparr>"
  show "addItemCalls (snd (processWith resolver prompt \<lparr>services_config = Some config\<rparr>)) =
     concat (map (notifications resolver (getWorkspaceContext config)) (extractInjections prompt))"
  proof (cases "extractInjections prompt = []")
    case True
    then show ?thesis by (simp add: processWith_no_injections noEffects_def)
  next
    case False
    then have inc: "includesStr prompt AT_FILE_INJECTION_TRIGGER"
      using no_trigger_no_injections by blast
    with False foldl_injectOne_effects(1) [of resolver config prompt ?st0] show ?thesis
      by (simp add: processWith_def Let_def noEffects_def)
  qed
  show "resolverCalls (snd (processWith resolver prompt \<lparr>services_config = Some config\<rparr>)) =
     map path (extractInjections prompt)"
  proof (cases "extractInjections prompt = []")
    case True
    then show ?thesis by (simp add: processWith_no_injections noEffects_def)
  next
    case False
    then have inc: "includesStr prompt AT_FILE_INJECTION_TRIGGER"
      using no_trigger_no_injections by blast
    with False foldl_injectOne_effects(2) [of resolver config prompt ?st0] show ?thesis
      by (simp add: processWith_def Let_def noEffects_def)
  qed
qed


section \<open>The expander: output, notifications and fast paths\<close>

text \<open>
  C5: the output of the expander is the prompt with every span replaced, by the
  resolved content when its resolution succeeds and by its own verbatim slice
  \<open>[startIndex, endIndex)\<close> when it fails; the text outside the spans is kept, the spans
  being in order and disjoint, and what replaces a span depends on that span alone.  With
  the first of two injections failing, \<open>missing.txt\<close> and \<open>ok.txt\<close>, the output keeps the
  first placeholder and has the content in place of the second.
\<close>

theorem output_splices_outcomes:
  "fst (processWith resolver prompt \<lparr>services_config = Some config\<rparr>) =
     expanded prompt (replacement resolver (getWorkspaceContext config) prompt) 0
       (extractInjections prompt)
   \<and> spansFrom prompt 0 (extractInjections prompt)
   \<and> expanded prompt (\<lambda>sp. slice prompt (startIndex sp) (endIndex sp)) 0
       (extractInjections prompt) = prompt
   \<and> (\<forall>e content.
         resolver ''missing.txt'' (getWorkspaceContext config) = Inl e
         \<and> resolver ''ok.txt'' (getWorkspaceContext config) = Inr content
         \<longrightarrow> fst (processWith resolver (''Analyze @'' @ ''{missing.txt} and @'' @ ''{ok.txt}'')
                  \<lparr>services_config = Some config\<rparr>)
             = ''Analyze @'' @ ''{missing.txt} and '' @ content)"
proof (intro conjI allI impI)
  show "fst (processWith resolver prompt \<lparr>services_config = Some config\<rparr>) =
     expanded prompt (replacement resolver (getWorkspaceContext config) prompt) 0
       (extractInjections prompt)"
    by (rule processWith_text)
  show "spansFrom prompt 0 (extractInjections prompt)"
    by (rule extractInjections_spans)
  then show "expanded prompt (\<lambda>sp. slice prompt (startIndex sp) (endIndex sp)) 0
       (extractInjections prompt) = prompt"
    by (simp add: expanded_slices)
next
  fix e content
  let ?prompt = "''Analyze @'' @ ''{missing.txt} and @'' @ ''{ok.txt}''"
  assume "resolver ''missing.txt'' (getWorkspaceContext config) = Inl e
         \<and> resolver ''ok.txt'' (getWorkspaceContext config) = Inr content"
  then have r: "resolver ''missing.txt'' (getWorkspaceContext config) = Inl e"
    "resolver ''ok.txt'' (getWorkspaceContext config) = Inr content"
    by simp_all
  have sps: "extractInjections ?prompt =
     [\<lparr>path = ''missing.txt'', startIndex = 8, endIndex = 22\<rparr>,
      \<lparr>path = ''ok.txt'', startIndex = 27, endIndex = 36\<rparr>]"
    by code_simp
  show "fst (processWith resolver ?prompt \<lparr>services_config = Some config\<rparr>)
        = ''Analyze @'' @ ''{missing.txt} and '' @ content"
    by (simp only: processWith_text sps) (simp add: replacement_def slice_def r)
qed


theorem output_splices_outcomes_witness:
  "readPathFromWorkspace
     (testEnv [(''/test/cwd'', Directory [''ok.txt'']), (''/test/cwd/ok.txt'', File ''<ok content>'')])
     ''missing.txt'' (testWorkspace ''/test/cwd'' []) = Inl (NotFoundError ''missing.txt'')
   \<and> readPathFromWorkspace
     (testEnv [(''/test/cwd'', Directory [''ok.txt'']), (''/test/cwd/ok.txt'', File ''<ok content>'')])
     ''ok.txt'' (testWorkspace ''/test/cwd'' []) = Inr ''<ok content>''
   \<and> fst (process
       (testEnv [(''/test/cwd'', Directory [''ok.txt'']), (''/test/cwd/ok.txt'', File ''<ok content>'')])
       (''Analyze @'' @ ''{missing.txt} and @'' @ ''{ok.txt}'') (testContext ''/test/cwd'' []))
     = ''Analyze @'' @ ''{missing.txt} and '' @ ''<ok content>''"
proof -
  let ?env = "testEnv [(''/test/cwd'', Directory [''ok.txt'']),
                       (''/test/cwd/ok.txt'', File ''<ok content>'')]"
  let ?ws = "testWorkspace ''/test/cwd'' []"
  let ?config = "\<lparr>getWorkspaceContext = ?ws\<rparr>"
  have m: "readPathFromWorkspace ?env ''missing.txt'' ?ws = Inl (NotFoundError ''missing.txt'')"
    by code_simp
  have k: "readPathFromWorkspace ?env ''ok.txt'' ?ws = Inr ''<ok content>''"
    by code_simp
  from output_splices_outcomes [of "readPathFromWorkspace ?env" _ ?config]
  have "\<forall>e content.
         readPathFromWorkspace ?env ''missing.txt'' (getWorkspaceContext ?config) = Inl e
         \<and> readPathFromWorkspace ?env ''ok.txt'' (getWorkspaceContext ?config) = Inr content
         \<longrightarrow> fst (processWith (readPathFromWorkspace ?env)
                    (''Analyze @'' @ ''{missing.txt} and @'' @ ''{ok.txt}'')
                    \<lparr>services_config = Some ?config\<rparr>)
             = ''Analyze @'' @ ''{missing.txt} and '' @ content"
    by blast
  with m k have "fst (processWith (readPathFromWorkspace ?env)
                    (''Analyze @'' @ ''{missing.txt} and @'' @ ''{ok.txt}'')
                    \<lparr>services_config = Some ?config\<rparr>)
             = ''Analyze @'' @ ''{missing.txt} and '' @ ''<ok content>''"
    by simp
  then have "fst (process ?env (''Analyze @'' @ ''{missing.txt} and @'' @ ''{ok.txt}'')
                (testContext ''/test/cwd'' []))
             = ''Analyze @'' @ ''{missing.txt} and '' @ ''<ok content>''"
    by (simp only: process_def testContext_def)
  with m k show ?thesis by (intro conjI)
qed

text \<open>
  C6: in one expansion call the notification sink receives exactly one item for each
  failed injection, in order, and none for a successful one; the text of the item is
  \<open>Failed to inject file content for '\<close>, the trigger, the trimmed path of the span,
  \<open>}': \<close> and the message of the failure.
\<close>

theorem one_notification_per_failure:
  "addItemCalls (snd (processWith resolver prompt \<lparr>services_config = Some config\<rparr>)) =
     concat (map
       (\<lambda>sp. case resolver (path sp) (getWorkspaceContext config) of
                Inr content \<Rightarrow> []
              | Inl e \<Rightarrow>
                  [\<lparr>itemType = ERROR,
                    itemText = ''Failed to inject file content for '' @ [CHR 0x27]
                      @ AT_FILE_INJECTION_TRIGGER @ path sp @ ''}'' @ [CHR 0x27] @ '': ''
                      @ message e\<rparr>])
       (extractInjections prompt))
   \<and> length (addItemCalls (snd (processWith resolver prompt \<lparr>services_config = Some config\<rparr>)))
     = length (filter (\<lambda>sp. isl (resolver (path sp) (getWorkspaceContext config)))
         (extractInjections prompt))
   \<and> addItemCalls (snd (processWith resolver prompt \<lparr>services_config = None\<rparr>)) = []"
proof (intro conjI)
  let ?note = "\<lambda>sp. case resolver (path sp) (getWorkspaceContext config) of
                Inr content \<Rightarrow> []
              | Inl e \<Rightarrow>
                  [\<lparr>itemType = ERROR,
                    itemText = ''Failed to inject file content for '' @ [CHR 0x27]
                      @ AT_FILE_INJECTION_TRIGGER @ path sp @ ''}'' @ [CHR 0x27] @ '': ''
                      @ message e\<rparr>]"
  have n: "notifications resolver (getWorkspaceContext config) = ?note"
    by (rule ext)
      (simp add: notifications_def failureText_def AT_FILE_INJECTION_TRIGGER_def
        split: sum.splits)
  show eq: "addItemCalls (snd (processWith resolver prompt \<lparr>services_config = Some config\<rparr>)) =
     concat (map ?note (extractInjections prompt))"
    by (simp only: processWith_effects(1) n)
  have "length (concat (map ?note sps))
        = length (filter (\<lambda>sp. isl (resolver (path sp) (getWorkspaceContext config))) sps)"
    for sps
    by (induction sps) (simp_all split: sum.splits)
  then show "length (addItemCalls (snd (processWith resolver prompt \<lparr>services_config = Some config\<rparr>)))
     = length (filter (\<lambda>sp. isl (resolver (path sp) (getWorkspaceContext config)))
         (extractInjections prompt))"
    by (simp only: eq)
  show "addItemCalls (snd (processWith resolver prompt \<lparr>services_config = None\<rparr>)) = []"
    by (simp add: processWith_def noEffects_def)
qed

theorem one_notification_per_failure_witness:
  "addItemCalls (snd (processWith
       (\<lambda>p w. if p = ''bad-file.txt'' then Inl (FsRejection (FsError ''EACCES'' ''Access denied''))
               else Inr (''content of '' @ p))
       (''Analyze @'' @ ''{bad-file.txt} and @'' @ ''{good-file.txt}'')
       (testContext ''/test/cwd'' [])))
   = [\<lparr>itemType = ERROR,
       itemText = ''Failed to inject file content for '' @ [CHR 0x27] @ ''@''
         @ ''{bad-file.txt}'' @ [CHR 0x27] @ '': Access denied''\<rparr>]"
proof -
  let ?r = "\<lambda>(p::string) (w::WorkspaceContext).
              if p = ''bad-file.txt'' then Inl (FsRejection (FsError ''EACCES'' ''Access denied''))
              else Inr (''content of '' @ p)"
  let ?prompt = "''Analyze @'' @ ''{bad-file.txt} and @'' @ ''{good-file.txt}''"
  have sps: "extractInjections ?prompt =
     [\<lparr>path = ''bad-file.txt'', startIndex = 8, endIndex = 23\<rparr>,
      \<lparr>path = ''good-file.txt'', startIndex = 28, endIndex = 44\<rparr>]"
    by code_simp
  from one_notification_per_failure
    [of ?r ?prompt "\<lparr>getWorkspaceContext = testWorkspace ''/test/cwd'' []\<rparr>"]
  show ?thesis
    by (simp only: sps testContext_def) (simp add: AT_FILE_INJECTION_TRIGGER_def)
qed

text \<open>
  C7: a prompt in which the trigger does not occur is returned unchanged, with no call
  of the resolver and no other effect; a prompt is also returned unchanged, without
  effect, when the context has no configuration.  (The first test of \<open>process\<close> is the
  search for the trigger; the scanner runs only after both tests.)
\<close>

theorem no_trigger_or_no_config_unchanged:
  "(\<not> sublist AT_FILE_INJECTION_TRIGGER prompt \<longrightarrow>
      processWith resolver prompt ctx
        = (prompt, \<lparr>addItemCalls = [], consoleErrors = [], resolverCalls = []\<rparr>))
   \<and> processWith resolver prompt \<lparr>services_config = None\<rparr>
        = (prompt, \<lparr>addItemCalls = [], consoleErrors = [], resolverCalls = []\<rparr>)"
  by (simp add: processWith_def includesStr_iff noEffects_def)

theorem no_trigger_or_no_config_unchanged_witness:
  "\<not> sublist AT_FILE_INJECTION_TRIGGER ''This is a simple prompt.''
   \<and> process (testEnv []) ''This is a simple prompt.'' (testContext ''/test/cwd'' [])
       = (''This is a simple prompt.'',
          \<lparr>addItemCalls = [], consoleErrors = [], resolverCalls = []\<rparr>)
   \<and> process (testEnv []) (''Analyze @'' @ ''{file.txt}'') \<lparr>services_config = None\<rparr>
       = (''Analyze @'' @ ''{file.txt}'',
          \<lparr>addItemCalls = [], consoleErrors = [], resolverCalls = []\<rparr>)"
proof -
  have "\<not> includesStr ''This is a simple prompt.'' AT_FILE_INJECTION_TRIGGER"
    by code_simp
  then have h: "\<not> sublist AT_FILE_INJECTION_TRIGGER ''This is a simple prompt.''"
    unfolding includesStr_iff .
  note t1 = no_trigger_or_no_config_unchanged
    [where prompt = "''This is a simple prompt.''"
       and resolver = "readPathFromWorkspace (testEnv [])"
       and ctx = "testContext ''/test/cwd'' []"]
  note t2 = no_trigger_or_no_config_unchanged
    [where prompt = "''Analyze @'' @ ''{file.txt}''"
       and resolver = "readPathFromWorkspace (testEnv [])"]
  from t1 h have c1: "process (testEnv []) ''This is a simple prompt.'' (testContext ''/test/cwd'' [])
       = (''This is a simple prompt.'',
          \<lparr>addItemCalls = [], consoleErrors = [], resolverCalls = []\<rparr>)"
    by (simp only: process_def) blast
  from t2 have c2: "process (testEnv []) (''Analyze @'' @ ''{file.txt}'') \<lparr>services_config = None\<rparr>
       = (''Analyze @'' @ ''{file.txt}'',
          \<lparr>addItemCalls = [], consoleErrors = [], resolverCalls = []\<rparr>)"
    by (simp only: process_def)
  from h c1 c2 show ?thesis by (intro conjI)
qed


section \<open>The resolver: search order\<close>

lemma searchDirs_first:
  assumes "\<forall>dir\<in>set before. \<not> fs_access env (path_resolve env dir pathStr)"
    and "fs_access env (path_resolve env root pathStr)"
  shows "searchDirs env pathStr (before @ root # after) = Some (path_resolve env root pathStr)"
  using assms by (induction before) (simp_all add: Let_def)



lemma readPathFromWorkspace_located:
  assumes "locate env pathStr workspace = Inr (Some target)" and "target \<noteq> []"
  shows "readPathFromWorkspace env pathStr workspace = readTarget env pathStr target"
  using assms by (simp add: readPathFromWorkspace_def)

lemma readTarget_directory:
  assumes "fs_stat env target = Inr True" and "fs_readdir env target = Inr entries"
  shows "readTarget env pathStr target =
         Inr (''Directory listing for '' @ pathStr @ '':'' @ [CHR 0x0A] @ ''- ''
              @ join ([CHR 0x0A] @ ''- '') entries)"
  using assms by (simp add: readTarget_def)

lemma join_entryLines:
  "entries \<noteq> [] \<Longrightarrow>
   [CHR 0x0A] @ ''- '' @ join ([CHR 0x0A] @ ''- '') entries = entryLines entries"
  by (induction "[CHR 0x0A] @ ''- ''" entries rule: join.induct) simp_all

text \<open>
  C4: for a relative path the resolver tries the roots in their configured order, the
  primary root first, and takes the first root under which the candidate path exists:
  when no root before \<open>root\<close> has the path and \<open>root\<close> has it, the target is the candidate
  under \<open>root\<close>.  In particular, when the path exists under the primary root, the
  primary root's version is read, whatever the other roots hold.
\<close>

theorem relative_path_first_root_wins:
  assumes "\<not> path_isAbsolute env pathStr"
    and "getDirectories workspace = before @ root # after"
    and "\<forall>dir\<in>set before. \<not> fs_access env (path_resolve env dir pathStr)"
    and "fs_access env (path_resolve env root pathStr)"
    and "path_resolve env root pathStr \<noteq> []"
  shows "locate env pathStr workspace = Inr (Some (path_resolve env root pathStr))
    \<and> readPathFromWorkspace env pathStr workspace
        = readTarget env pathStr (path_resolve env root pathStr)
    \<and> (before = [] \<longrightarrow>
         readPathFromWorkspace env pathStr workspace
         = readTarget env pathStr (path_resolve env (hd (getDirectories workspace)) pathStr))"
proof -
  have loc: "locate env pathStr workspace = Inr (Some (path_resolve env root pathStr))"
    using assms(1,2) searchDirs_first [OF assms(3,4)] by (simp add: locate_def)
  from readPathFromWorkspace_located [OF loc assms(5)] loc assms(2) show ?thesis
    by simp
qed

theorem relative_path_first_root_wins_witness:
  "\<not> path_isAbsolute
       (testEnv [(''/test/cwd/file.txt'', File ''hello from cwd''),
                 (''/test/other/file.txt'', File ''hello from other dir'')]) ''file.txt''
   \<and> getDirectories (testWorkspace ''/test/cwd'' [''/test/other'']) = [] @ ''/test/cwd'' # [''/test/other'']
   \<and> fs_access
       (testEnv [(''/test/cwd/file.txt'', File ''hello from cwd''),
                 (''/test/other/file.txt'', File ''hello from other dir'')])
       ''/test/other/file.txt''
   \<and> readPathFromWorkspace
       (testEnv [(''/test/cwd/file.txt'', File ''hello from cwd''),
                 (''/test/other/file.txt'', File ''hello from other dir'')])
       ''file.txt'' (testWorkspace ''/test/cwd'' [''/test/other''])
     = Inr ''hello from cwd''"
proof -
  let ?env = "testEnv [(''/test/cwd/file.txt'', File ''hello from cwd''),
                       (''/test/other/file.txt'', File ''hello from other dir'')]"
  let ?ws = "testWorkspace ''/test/cwd'' [''/test/other'']"
  have h1: "\<not> path_isAbsolute ?env ''file.txt''"
    by (simp add: testEnv_def)
  have h2: "getDirectories ?ws = [] @ ''/test/cwd'' # [''/test/other'']"
    by (simp add: testWorkspace_def)
  have h3: "\<forall>dir\<in>set []. \<not> fs_access ?env (path_resolve ?env dir ''file.txt'')"
    by simp
  have h4: "fs_access ?env (path_resolve ?env ''/test/cwd'' ''file.txt'')"
    by (simp add: testEnv_def)
  have h5: "path_resolve ?env ''/test/cwd'' ''file.txt'' \<noteq> []"
    by (simp add: testEnv_def)
  have other: "fs_access ?env ''/test/other/file.txt''"
    by (simp add: testEnv_def)
  have rd: "readTarget ?env ''file.txt'' (path_resolve ?env ''/test/cwd'' ''file.txt'')
            = Inr ''hello from cwd''"
    by (simp add: testEnv_def readTarget_def)
  from relative_path_first_root_wins [OF h1 h2 h3 h4 h5] rd
  have "readPathFromWorkspace ?env ''file.txt'' ?ws = Inr ''hello from cwd''"
    by simp
  with h1 h2 other show ?thesis by (intro conjI)
qed


section \<open>The resolver and the expander: a path outside the workspace\<close>

lemma process_single_injection:
  assumes "extractInjections prompt = [sp]"
  shows "process env prompt \<lparr>services_config = Some config\<rparr> =
         (expanded prompt (replacement (readPathFromWorkspace env) (getWorkspaceContext config) prompt)
            0 [sp],
          \<lparr>addItemCalls = notifications (readPathFromWorkspace env) (getWorkspaceContext config) sp,
           consoleErrors =
             map (\<lambda>item. ''[AtFileProcessor] '' @ itemText item @ ''. Leaving placeholder in prompt.'')
               (notifications (readPathFromWorkspace env) (getWorkspaceContext config) sp),
           resolverCalls = [path sp]\<rparr>)"
proof -
  from assms have inc: "includesStr prompt AT_FILE_INJECTION_TRIGGER"
    using no_trigger_no_injections by fastforce
  let ?r = "readPathFromWorkspace env"
  let ?out = "processWith ?r prompt \<lparr>services_config = Some config\<rparr>"
  have t: "fst ?out = expanded prompt (replacement ?r (getWorkspaceContext config) prompt) 0 [sp]"
    by (simp only: processWith_text assms)
  have e: "snd ?out = effects (injectOne ?r config prompt
              \<lparr>processedPrompt = [], lastIndex = 0, effects = noEffects\<rparr> sp)"
    using inc assms by (simp add: processWith_def Let_def)
  have "snd ?out =
        \<lparr>addItemCalls = notifications ?r (getWorkspaceContext config) sp,
         consoleErrors =
           map (\<lambda>item. ''[AtFileProcessor] '' @ itemText item @ ''. Leaving placeholder in prompt.'')
             (notifications ?r (getWorkspaceContext config) sp),
         resolverCalls = [path sp]\<rparr>"
    by (simp add: e injectOne_effects noEffects_def)
  with t show ?thesis by (simp add: process_def prod_eq_iff)
qed

text \<open>
  C1: an absolute path outside the workspace makes the resolver fail with the
  out-of-bounds error, whose message ends with the offending path.  The expander absorbs
  the failure: in its output the place of a span with that path holds the span's own
  slice of the prompt, and the span contributes exactly one notification, whose text
  contains the path.  For a prompt whose only injection has this path, the prompt comes
  back unchanged with that single notification.
\<close>

theorem absolute_path_outside_workspace:
  assumes "path_isAbsolute env p"
    and "\<not> isPathWithinWorkspace workspace p"
  shows "readPathFromWorkspace env p workspace = Inl (OutOfBoundsError p)
    \<and> message (OutOfBoundsError p) = ''Absolute path is outside of the allowed workspace: '' @ p
    \<and> (\<forall>prompt config sp.
          getWorkspaceContext config = workspace \<and> path sp = p \<longrightarrow>
            fst (process env prompt \<lparr>services_config = Some config\<rparr>)
              = expanded prompt (replacement (readPathFromWorkspace env) workspace prompt) 0
                  (extractInjections prompt)
          \<and> replacement (readPathFromWorkspace env) workspace prompt sp
              = slice prompt (startIndex sp) (endIndex sp)
          \<and> addItemCalls (snd (process env prompt \<lparr>services_config = Some config\<rparr>))
              = concat (map (notifications (readPathFromWorkspace env) workspace)
                  (extractInjections prompt))
          \<and> notifications (readPathFromWorkspace env) workspace sp
              = [\<lparr>itemType = ERROR,
                  itemText = ''Failed to inject file content for '' @ [CHR 0x27]
                    @ AT_FILE_INJECTION_TRIGGER @ p @ ''}'' @ [CHR 0x27]
                    @ '': Absolute path is outside of the allowed workspace: '' @ p\<rparr>]
          \<and> (extractInjections prompt = [sp] \<longrightarrow>
               process env prompt \<lparr>services_config = Some config\<rparr>
               = (prompt,
                  \<lparr>addItemCalls =
                     [\<lparr>itemType = ERROR,
                       itemText = ''Failed to inject file content for '' @ [CHR 0x27]
                         @ AT_FILE_INJECTION_TRIGGER @ p @ ''}'' @ [CHR 0x27]
                         @ '': Absolute path is outside of the allowed workspace: '' @ p\<rparr>],
                   consoleErrors =
                     [''[AtFileProcessor] Failed to inject file content for '' @ [CHR 0x27]
                        @ AT_FILE_INJECTION_TRIGGER @ p @ ''}'' @ [CHR 0x27]
                        @ '': Absolute path is outside of the allowed workspace: '' @ p
                        @ ''. Leaving placeholder in prompt.''],
                   resolverCalls = [p]\<rparr>)))"
proof (intro conjI allI impI)
  show r: "readPathFromWorkspace env p workspace = Inl (OutOfBoundsError p)"
    using assms by (simp add: readPathFromWorkspace_def locate_def)
  show "message (OutOfBoundsError p) = ''Absolute path is outside of the allowed workspace: '' @ p"
    by simp
  fix prompt :: string and config :: Config and sp :: FileInjection
  assume "getWorkspaceContext config = workspace \<and> path sp = p"
  then have c: "getWorkspaceContext config = workspace" and p: "path sp = p"
    by simp_all
  show "fst (process env prompt \<lparr>services_config = Some config\<rparr>)
        = expanded prompt (replacement (readPathFromWorkspace env) workspace prompt) 0
            (extractInjections prompt)"
    by (simp add: process_def processWith_text c)
  show rep: "replacement (readPathFromWorkspace env) workspace prompt sp
        = slice prompt (startIndex sp) (endIndex sp)"
    by (simp add: replacement_def p r)
  show "addItemCalls (snd (process env prompt \<lparr>services_config = Some config\<rparr>))
        = concat (map (notifications (readPathFromWorkspace env) workspace)
            (extractInjections prompt))"
    by (simp add: process_def processWith_effects c)
  show ntf: "notifications (readPathFromWorkspace env) workspace sp
        = [\<lparr>itemType = ERROR,
            itemText = ''Failed to inject file content for '' @ [CHR 0x27]
              @ AT_FILE_INJECTION_TRIGGER @ p @ ''}'' @ [CHR 0x27]
              @ '': Absolute path is outside of the allowed workspace: '' @ p\<rparr>]"
    by (simp add: notifications_def failureText_def AT_FILE_INJECTION_TRIGGER_def p r)
  assume one: "extractInjections prompt = [sp]"
  have "spansFrom prompt 0 [sp]"
    using extractInjections_spans [of prompt] by (simp only: one)
  then have "expanded prompt (\<lambda>sp. slice prompt (startIndex sp) (endIndex sp)) 0 [sp] = prompt"
    by (simp only: expanded_slices) simp
  then have "expanded prompt (replacement (readPathFromWorkspace env) workspace prompt) 0 [sp]
             = prompt"
    by (simp add: rep)
  then show "process env prompt \<lparr>services_config = Some config\<rparr>
       = (prompt,
          \<lparr>addItemCalls =
             [\<lparr>itemType = ERROR,
               itemText = ''Failed to inject file content for '' @ [CHR 0x27]
                 @ AT_FILE_INJECTION_TRIGGER @ p @ ''}'' @ [CHR 0x27]
                 @ '': Absolute path is outside of the allowed workspace: '' @ p\<rparr>],
           consoleErrors =
             [''[AtFileProcessor] Failed to inject file content for '' @ [CHR 0x27]
                @ AT_FILE_INJECTION_TRIGGER @ p @ ''}'' @ [CHR 0x27]
                @ '': Absolute path is outside of the allowed workspace: '' @ p
                @ ''. Leaving placeholder in prompt.''],
           resolverCalls = [p]\<rparr>)"
    by (simp add: process_single_injection [OF one] c ntf p)
qed


theorem absolute_path_outside_workspace_witness:
  "path_isAbsolute
     (testEnv [(''/test/cwd'', Directory []), (''/test/outside'', Directory [''secret.txt'']),
               (''/test/outside/secret.txt'', File ''secrets'')])
     ''/test/outside/secret.txt''
   \<and> \<not> isPathWithinWorkspace (testWorkspace ''/test/cwd'' []) ''/test/outside/secret.txt''
   \<and> readPathFromWorkspace
       (testEnv [(''/test/cwd'', Directory []), (''/test/outside'', Directory [''secret.txt'']),
                 (''/test/outside/secret.txt'', File ''secrets'')])
       ''/test/outside/secret.txt'' (testWorkspace ''/test/cwd'' [])
     = Inl (OutOfBoundsError ''/test/outside/secret.txt'')
   \<and> extractInjections (''Read @'' @ ''{/test/outside/secret.txt} now'')
     = [\<lparr>path = ''/test/outside/secret.txt'', startIndex = 5, endIndex = 32\<rparr>]
   \<and> process
       (testEnv [(''/test/cwd'', Directory []), (''/test/outside'', Directory [''secret.txt'']),
                 (''/test/outside/secret.txt'', File ''secrets'')])
       (''Read @'' @ ''{/test/outside/secret.txt} now'') (testContext ''/test/cwd'' [])
     = (''Read @'' @ ''{/test/outside/secret.txt} now'',
        \<lparr>addItemCalls =
           [\<lparr>itemType = ERROR,
             itemText = ''Failed to inject file content for '' @ [CHR 0x27]
               @ AT_FILE_INJECTION_TRIGGER @ ''/test/outside/secret.txt'' @ ''}'' @ [CHR 0x27]
               @ '': Absolute path is outside of the allowed workspace: ''
               @ ''/test/outside/secret.txt''\<rparr>],
         consoleErrors =
           [''[AtFileProcessor] Failed to inject file content for '' @ [CHR 0x27]
              @ AT_FILE_INJECTION_TRIGGER @ ''/test/outside/secret.txt'' @ ''}'' @ [CHR 0x27]
              @ '': Absolute path is outside of the allowed workspace: ''
              @ ''/test/outside/secret.txt'' @ ''. Leaving placeholder in prompt.''],
         resolverCalls = [''/test/outside/secret.txt'']\<rparr>)"
proof -
  let ?env = "testEnv [(''/test/cwd'', Directory []), (''/test/outside'', Directory [''secret.txt'']),
                       (''/test/outside/secret.txt'', File ''secrets'')]"
  let ?ws = "testWorkspace ''/test/cwd'' []"
  let ?p = "''/test/outside/secret.txt''"
  let ?prompt = "''Read @'' @ ''{/test/outside/secret.txt} now''"
  let ?sp = "\<lparr>path = ?p, startIndex = 5, endIndex = 32\<rparr>"
  let ?config = "\<lparr>getWorkspaceContext = ?ws\<rparr>"
  have h1: "path_isAbsolute ?env ?p"
    by (simp add: testEnv_def)
  have h2: "\<not> isPathWithinWorkspace ?ws ?p"
    by (simp add: testWorkspace_def)
  have sps: "extractInjections ?prompt = [?sp]"
    by code_simp
  note t = absolute_path_outside_workspace [OF h1 h2]
  from t have c1: "readPathFromWorkspace ?env ?p ?ws = Inl (OutOfBoundsError ?p)"
    by (rule conjunct1)
  have g: "getWorkspaceContext ?config = ?ws \<and> path ?sp = ?p"
    by simp
  from t have "\<forall>prompt config sp.
          getWorkspaceContext config = ?ws \<and> path sp = ?p \<longrightarrow>
            (extractInjections prompt = [sp] \<longrightarrow>
               process ?env prompt \<lparr>services_config = Some config\<rparr>
               = (prompt,
                  \<lparr>addItemCalls =
                     [\<lparr>itemType = ERROR,
                       itemText = ''Failed to inject file content for '' @ [CHR 0x27]
                         @ AT_FILE_INJECTION_TRIGGER @ ?p @ ''}'' @ [CHR 0x27]
                         @ '': Absolute path is outside of the allowed workspace: '' @ ?p\<rparr>],
                   consoleErrors =
                     [''[AtFileProcessor] Failed to inject file content for '' @ [CHR 0x27]
                        @ AT_FILE_INJECTION_TRIGGER @ ?p @ ''}'' @ [CHR 0x27]
                        @ '': Absolute path is outside of the allowed workspace: '' @ ?p
                        @ ''. Leaving placeholder in prompt.''],
                   resolverCalls = [?p]\<rparr>))"
    by blast
  with g sps have c2: "process ?env ?prompt \<lparr>services_config = Some ?config\<rparr>
               = (?prompt,
                  \<lparr>addItemCalls =
                     [\<lparr>itemType = ERROR,
                       itemText = ''Failed to inject file content for '' @ [CHR 0x27]
                         @ AT_FILE_INJECTION_TRIGGER @ ?p @ ''}'' @ [CHR 0x27]
                         @ '': Absolute path is outside of the allowed workspace: '' @ ?p\<rparr>],
                   consoleErrors =
                     [''[AtFileProcessor] Failed to inject file content for '' @ [CHR 0x27]
                        @ AT_FILE_INJECTION_TRIGGER @ ?p @ ''}'' @ [CHR 0x27]
                        @ '': Absolute path is outside of the allowed workspace: '' @ ?p
                        @ ''. Leaving placeholder in prompt.''],
                   resolverCalls = [?p]\<rparr>)"
    by blast
  have ctx: "testContext ''/test/cwd'' [] = \<lparr>services_config = Some ?config\<rparr>"
    by (simp add: testContext_def)
  from c2 have c3: "process ?env ?prompt (testContext ''/test/cwd'' [])
               = (?prompt,
                  \<lparr>addItemCalls =
                     [\<lparr>itemType = ERROR,
                       itemText = ''Failed to inject file content for '' @ [CHR 0x27]
                         @ AT_FILE_INJECTION_TRIGGER @ ?p @ ''}'' @ [CHR 0x27]
                         @ '': Absolute path is outside of the allowed workspace: '' @ ?p\<rparr>],
                   consoleErrors =
                     [''[AtFileProcessor] Failed to inject file content for '' @ [CHR 0x27]
                        @ AT_FILE_INJECTION_TRIGGER @ ?p @ ''}'' @ [CHR 0x27]
                        @ '': Absolute path is outside of the allowed workspace: '' @ ?p
                        @ ''. Leaving placeholder in prompt.''],
                   resolverCalls = [?p]\<rparr>)"
    by (simp only: ctx)
  from h1 h2 c1 sps c3 show ?thesis
    by (intro conjI)
qed


section \<open>The resolver: directory listings and the not-found error\<close>

lemma readTarget_not_NotFound: "readTarget env pathStr target \<noteq> Inl (NotFoundError q)"
  by (simp add: readTarget_def split: sum.splits)

text \<open>
  C10: when the resolved target is a directory without entries, the result is the line
  \<open>Directory listing for\<close> with the path as given and a colon, a line break, and a
  dangling \<open>- \<close> with no entry name after it.
\<close>

theorem empty_directory_listing:
  assumes "locate env pathStr workspace = Inr (Some target)" and "target \<noteq> []"
    and "fs_stat env target = Inr True" and "fs_readdir env target = Inr []"
  shows "readPathFromWorkspace env pathStr workspace
         = Inr (''Directory listing for '' @ pathStr @ '':'' @ [CHR 0x0A] @ ''- '')"
  using readPathFromWorkspace_located [OF assms(1,2)] readTarget_directory [OF assms(3,4)]
  by simp

theorem empty_directory_listing_witness:
  "locate (testEnv [(''/test/cwd'', Directory [''subdir'']), (''/test/cwd/subdir'', Directory [])])
     ''subdir'' (testWorkspace ''/test/cwd'' []) = Inr (Some ''/test/cwd/subdir'')
   \<and> fs_stat (testEnv [(''/test/cwd'', Directory [''subdir'']), (''/test/cwd/subdir'', Directory [])])
       ''/test/cwd/subdir'' = Inr True
   \<and> fs_readdir (testEnv [(''/test/cwd'', Directory [''subdir'']), (''/test/cwd/subdir'', Directory [])])
       ''/test/cwd/subdir'' = Inr []
   \<and> readPathFromWorkspace
       (testEnv [(''/test/cwd'', Directory [''subdir'']), (''/test/cwd/subdir'', Directory [])])
       ''subdir'' (testWorkspace ''/test/cwd'' [])
     = Inr (''Directory listing for '' @ ''subdir'' @ '':'' @ [CHR 0x0A] @ ''- '')"
proof -
  let ?env = "testEnv [(''/test/cwd'', Directory [''subdir'']), (''/test/cwd/subdir'', Directory [])]"
  let ?ws = "testWorkspace ''/test/cwd'' []"
  have h1: "locate ?env ''subdir'' ?ws = Inr (Some ''/test/cwd/subdir'')"
    by (simp add: locate_def testEnv_def testWorkspace_def)
  have h2: "''/test/cwd/subdir'' \<noteq> []"
    by simp
  have h3: "fs_stat ?env ''/test/cwd/subdir'' = Inr True"
    by (simp add: testEnv_def)
  have h4: "fs_readdir ?env ''/test/cwd/subdir'' = Inr []"
    by (simp add: testEnv_def)
  from h1 h3 h4 empty_directory_listing [OF h1 h2 h3 h4] show ?thesis
    by (intro conjI)
qed




text \<open>
  C8: when the resolved target is a directory, the result should begin with
  \<open>Directory listing for\<close>, the path as given and a colon, followed by exactly one line
  \<open>- entry\<close> for each immediate child.  For a directory without children the code
  returns the header followed by a line break and \<open>- \<close>: one line for no child, where
  the header alone is one line per child.
\<close>

theorem directory_listing_empty_directory:
  "fs_stat (testEnv [(''/test/cwd/emptydir'', Directory [])]) ''/test/cwd/emptydir'' = Inr True
   \<and> fs_readdir (testEnv [(''/test/cwd/emptydir'', Directory [])]) ''/test/cwd/emptydir'' = Inr []
   \<and> readPathFromWorkspace (testEnv [(''/test/cwd/emptydir'', Directory [])]) ''emptydir''
       (testWorkspace ''/test/cwd'' [])
     = Inr (''Directory listing for emptydir:'' @ [CHR 0x0A] @ ''- '')
   \<and> readPathFromWorkspace (testEnv [(''/test/cwd/emptydir'', Directory [])]) ''emptydir''
       (testWorkspace ''/test/cwd'' [])
     \<noteq> Inr (''Directory listing for emptydir:'' @ entryLines [])"
  by (simp add: readPathFromWorkspace_def locate_def readTarget_def testEnv_def testWorkspace_def)

text \<open>With at least one entry the code does give one line for each immediate child, in
  the order the directory is read.\<close>

lemma directory_listing_nonempty:
  assumes "locate env pathStr workspace = Inr (Some target)" and "target \<noteq> []"
    and "fs_stat env target = Inr True" and "fs_readdir env target = Inr entries"
    and "entries \<noteq> []"
  shows "readPathFromWorkspace env pathStr workspace
         = Inr (''Directory listing for '' @ pathStr @ '':'' @ entryLines entries)"
proof -
  have "readPathFromWorkspace env pathStr workspace
         = Inr (''Directory listing for '' @ pathStr @ '':'' @ [CHR 0x0A] @ ''- ''
                @ join ([CHR 0x0A] @ ''- '') entries)"
    using readPathFromWorkspace_located [OF assms(1,2)] readTarget_directory [OF assms(3,4)]
    by simp
  with join_entryLines [OF assms(5)] show ?thesis by simp
qed




end
